theory Spec2Isabelle
  imports Complex_Main
begin

section \<open>Data model of evals/reliability\_eval.py\<close>

text \<open>
  The two enumerations of the source, in declaration order, with the string each
  member carries as its \<open>.value\<close>.
\<close>

datatype FailureType =
    AUTHENTICATION_FAILED
  | NETWORK_TIMEOUT
  | PAYMENT_DECLINED
  | PROGRAM_FULL
  | SITE_MAINTENANCE
  | CAPTCHA_CHALLENGE
  | RATE_LIMITED
  | FORM_VALIDATION_ERROR

fun FailureType_value :: "FailureType \<Rightarrow> string" where
  "FailureType_value AUTHENTICATION_FAILED = ''authentication_failed''"
| "FailureType_value NETWORK_TIMEOUT = ''network_timeout''"
| "FailureType_value PAYMENT_DECLINED = ''payment_declined''"
| "FailureType_value PROGRAM_FULL = ''program_full''"
| "FailureType_value SITE_MAINTENANCE = ''site_maintenance''"
| "FailureType_value CAPTCHA_CHALLENGE = ''captcha_challenge''"
| "FailureType_value RATE_LIMITED = ''rate_limited''"
| "FailureType_value FORM_VALIDATION_ERROR = ''form_validation_error''"

text \<open>Iterating the enumeration class yields its members in declaration order.\<close>

definition FailureType_members :: "FailureType list" where
  "FailureType_members =
     [AUTHENTICATION_FAILED, NETWORK_TIMEOUT, PAYMENT_DECLINED, PROGRAM_FULL,
      SITE_MAINTENANCE, CAPTCHA_CHALLENGE, RATE_LIMITED, FORM_VALIDATION_ERROR]"

datatype InterventionType =
    MANUAL_LOGIN
  | CREDENTIAL_UPDATE
  | PAYMENT_METHOD_UPDATE
  | CUSTOMER_SUPPORT
  | SYSTEM_RESTART

fun InterventionType_value :: "InterventionType \<Rightarrow> string" where
  "InterventionType_value MANUAL_LOGIN = ''manual_login''"
| "InterventionType_value CREDENTIAL_UPDATE = ''credential_update''"
| "InterventionType_value PAYMENT_METHOD_UPDATE = ''payment_method_update''"
| "InterventionType_value CUSTOMER_SUPPORT = ''customer_support''"
| "InterventionType_value SYSTEM_RESTART = ''system_restart''"

text \<open>
  A \<open>datetime\<close> is modelled as an integer number of microseconds on the time line and a
  \<open>timedelta\<close> as an integer number of microseconds, the resolution of both Python
  types. The calendar range of \<open>datetime\<close> (years 1 to 9999) is not modelled.
\<close>

type_synonym datetime = int
type_synonym timedelta = int

definition timedelta_minutes :: "nat \<Rightarrow> timedelta" where
  "timedelta_minutes m = int m * 60000000"

text \<open>\<open>timedelta.total_seconds()\<close>, as a real number.\<close>

definition total_seconds :: "timedelta \<Rightarrow> real" where
  "total_seconds d = real_of_int d / 1000000"

text \<open>
  The dataclass \<open>FailureIncident\<close>. The fields \<open>signup_id\<close>, \<open>provider\<close> and
  \<open>timestamp\<close> also exist in \<open>SignupAttempt\<close>; for an incident they are written
  with the record name in front.
\<close>

record FailureIncident =
  incident_id :: string
  signup_id :: string
  provider :: string
  failure_type :: FailureType
  timestamp :: datetime
  resolved :: bool
  resolution_time :: "datetime option"
  retry_count :: nat
  manual_intervention :: bool
  intervention_type :: "InterventionType option"
  error_message :: string

text \<open>
  The dataclass \<open>SignupAttempt\<close>. The source's \<open>failure_incident\<close> field holds a
  reference to the incident object that the retry cascade later mutates; the
  reference is modelled by the identifier of the incident it points to.
\<close>

record SignupAttempt =
  signup_id :: string
  user_id :: string
  provider :: string
  program_id :: string
  timestamp :: datetime
  success :: bool
  failure_incident :: "string option"
  retry_of :: "string option"

section \<open>Classification: \_generate\_failure\_incident\<close>

text \<open>
  The provider's table of weighted failure types. The source compares the provider
  with two names and takes the third table in the \<open>else\<close> branch.
\<close>

definition failure_types :: "string \<Rightarrow> (FailureType \<times> real) list" where
  "failure_types provider_name =
     (if provider_name = ''skiclubpro'' then
        [(AUTHENTICATION_FAILED, 0.3),
         (RATE_LIMITED, 0.2),
         (NETWORK_TIMEOUT, 0.2),
         (PAYMENT_DECLINED, 0.15),
         (SITE_MAINTENANCE, 0.1),
         (CAPTCHA_CHALLENGE, 0.05)]
      else if provider_name = ''daysmart'' then
        [(FORM_VALIDATION_ERROR, 0.25),
         (PROGRAM_FULL, 0.25),
         (NETWORK_TIMEOUT, 0.2),
         (AUTHENTICATION_FAILED, 0.15),
         (PAYMENT_DECLINED, 0.15)]
      else
        [(PROGRAM_FULL, 0.4),
         (PAYMENT_DECLINED, 0.2),
         (NETWORK_TIMEOUT, 0.2),
         (AUTHENTICATION_FAILED, 0.2)])"

text \<open>
  The selection loop: \<open>cumulative\<close> starts at 0 and \<open>failure_type\<close> at the default
  \<open>NETWORK_TIMEOUT\<close>; the first entry whose running sum reaches the draw is taken and
  the loop is left. The loop only adds and compares, so it is written for any
  number type with an addition and an order.
\<close>

fun select_loop ::
  "'w::{plus,ord} \<Rightarrow> 'w \<Rightarrow> FailureType \<Rightarrow> (FailureType \<times> 'w) list \<Rightarrow> FailureType" where
  "select_loop rand cumulative ftype [] = ftype"
| "select_loop rand cumulative ftype ((ft, weight) # rest) =
     (if rand \<le> cumulative + weight then ft
      else select_loop rand (cumulative + weight) ftype rest)"

definition select_failure_type ::
  "'w::{zero,plus,ord} \<Rightarrow> (FailureType \<times> 'w) list \<Rightarrow> FailureType" where
  "select_failure_type rand table = select_loop rand 0 NETWORK_TIMEOUT table"

fun get_error_message :: "FailureType \<Rightarrow> string" where
  "get_error_message AUTHENTICATION_FAILED = ''Invalid username or password''"
| "get_error_message NETWORK_TIMEOUT = ''Request timed out after 30 seconds''"
| "get_error_message PAYMENT_DECLINED = ''Payment was declined by your bank''"
| "get_error_message PROGRAM_FULL = ''This program is currently full''"
| "get_error_message SITE_MAINTENANCE = ''Site is under maintenance''"
| "get_error_message CAPTCHA_CHALLENGE = ''CAPTCHA verification required''"
| "get_error_message RATE_LIMITED = ''Too many requests, please try again later''"
| "get_error_message FORM_VALIDATION_ERROR = ''Please check all required fields''"

definition manual_intervention_required :: "FailureType \<Rightarrow> bool" where
  "manual_intervention_required ft =
     (ft \<in> set [CAPTCHA_CHALLENGE, SITE_MAINTENANCE, AUTHENTICATION_FAILED])"

definition default_intervention_type :: "FailureType \<Rightarrow> InterventionType option" where
  "default_intervention_type ft =
     (if manual_intervention_required ft then
        (if ft = CAPTCHA_CHALLENGE then Some MANUAL_LOGIN
         else if ft = AUTHENTICATION_FAILED then Some CREDENTIAL_UPDATE
         else if ft = SITE_MAINTENANCE then Some CUSTOMER_SUPPORT
         else None)
      else None)"

text \<open>
  \<open>_generate_failure_incident\<close>. The value \<open>rand\<close> is the draw of
  \<open>random.random()\<close> and \<open>new_incident_id\<close> the identifier the source builds from the
  clock and a second random number; both are inputs of the model.
\<close>

definition generate_failure_incident ::
  "string \<Rightarrow> string \<Rightarrow> datetime \<Rightarrow> real \<Rightarrow> string \<Rightarrow> FailureIncident" where
  "generate_failure_incident sid provider_name ts rand new_incident_id =
     (let ft = select_failure_type rand (failure_types provider_name) in
      \<lparr>incident_id = new_incident_id,
       FailureIncident.signup_id = sid,
       FailureIncident.provider = provider_name,
       failure_type = ft,
       FailureIncident.timestamp = ts,
       resolved = False,
       resolution_time = None,
       retry_count = 0,
       manual_intervention = manual_intervention_required ft,
       intervention_type = default_intervention_type ft,
       error_message = get_error_message ft\<rparr>)"

section \<open>The retry cascade: \_simulate\_retries\<close>

definition max_retries :: nat where
  "max_retries = 3"

text \<open>Decimal rendering of a non-negative integer, as an f-string prints it.\<close>

fun str_of_nat :: "nat \<Rightarrow> string" where
  "str_of_nat n =
     (if n < 10 then [''0123456789'' ! n]
      else str_of_nat (n div 10) @ [''0123456789'' ! (n mod 10)])"

declare str_of_nat.simps [simp del]

text \<open>
  The \<open>while\<close> loop. The state is the local counter (\<open>retries\<close>, the source's
  local \<open>retry_count\<close>), the incident and the evaluator's list of attempts. Each
  iteration calls \<open>random.random()\<close> once; \<open>rnd i\<close> is the value of the call made
  when the counter is \<open>i\<close>, that is the draw of round \<open>i + 1\<close>. A successful
  round leaves the loop by \<open>break\<close>.
\<close>

function retry_loop ::
  "(nat \<Rightarrow> real) \<Rightarrow> SignupAttempt \<Rightarrow> nat \<Rightarrow> FailureIncident \<Rightarrow> SignupAttempt list
     \<Rightarrow> FailureIncident \<times> SignupAttempt list" where
  "retry_loop rnd original_signup retries incident signup_attempts =
     (if retries < max_retries \<and> \<not> resolved incident then
        (let retries' = retries + 1;
             retry_id = signup_id original_signup @ ''_retry_'' @ str_of_nat retries';
             retry_timestamp =
               FailureIncident.timestamp incident + timedelta_minutes (retries' * 5);
             retry_success = (rnd retries < 0.8)
         in if retry_success then
              (incident\<lparr>resolved := True,
                        resolution_time := Some retry_timestamp,
                        retry_count := retries'\<rparr>,
               signup_attempts @
                 [\<lparr>signup_id = retry_id,
                   user_id = user_id original_signup,
                   provider = provider original_signup,
                   program_id = program_id original_signup,
                   timestamp = retry_timestamp,
                   success = True,
                   failure_incident = None,
                   retry_of = Some (signup_id original_signup)\<rparr>])
            else
              retry_loop rnd original_signup retries' incident
                (signup_attempts @
                   [\<lparr>signup_id = retry_id,
                     user_id = user_id original_signup,
                     provider = provider original_signup,
                     program_id = program_id original_signup,
                     timestamp = retry_timestamp,
                     success = False,
                     failure_incident = None,
                     retry_of = Some (signup_id original_signup)\<rparr>]))
      else (incident, signup_attempts))"
  by pat_completeness auto
termination
  by (relation "measure (\<lambda>(rnd, original_signup, retries, incident, signup_attempts).
                            max_retries - retries)") auto

declare retry_loop.simps [simp del]

text \<open>
  \<open>_simulate_retries\<close>: the early return for the two failure types that are not
  retried, the loop, and the escalation of an incident that is still unresolved.
  It returns the incident and the evaluator's attempt list as the call leaves them.
\<close>

definition simulate_retries ::
  "(nat \<Rightarrow> real) \<Rightarrow> SignupAttempt \<Rightarrow> FailureIncident \<Rightarrow> SignupAttempt list
     \<Rightarrow> FailureIncident \<times> SignupAttempt list" where
  "simulate_retries rnd original_signup incident signup_attempts =
     (if failure_type incident \<in> set [PROGRAM_FULL, PAYMENT_DECLINED] then
        (incident, signup_attempts)
      else
        (case retry_loop rnd original_signup 0 incident signup_attempts of
           (incident1, signup_attempts1) \<Rightarrow>
             if \<not> resolved incident1 then
               (let incident2 = incident1\<lparr>manual_intervention := True\<rparr>
                in if intervention_type incident2 = None then
                     (incident2\<lparr>intervention_type := Some CUSTOMER_SUPPORT\<rparr>,
                      signup_attempts1)
                   else (incident2, signup_attempts1))
             else (incident1, signup_attempts1)))"

section \<open>The metrics reduction: calculate\_reliability\_metrics\<close>

text \<open>
  Division of a \<open>timedelta\<close> by a positive integer rounds the quotient of the
  microseconds to the nearest integer, ties to even.
\<close>

definition divide_nearest :: "int \<Rightarrow> int \<Rightarrow> int" where
  "divide_nearest a b =
     (let q = a div b; r = a mod b
      in if 2 * r > b \<or> (2 * r = b \<and> odd q) then q + 1 else q)"

text \<open>
  The MTBF computed from the failed attempts. The source's \<open>float('inf')\<close> of the
  \<open>else\<close> branch is the value \<open>None\<close>; the other branch always yields a finite
  number. Floating-point rounding of the final divisions is not modelled: the
  quotients are real numbers.
\<close>

definition mtbf_hours_of :: "SignupAttempt list \<Rightarrow> real option" where
  "mtbf_hours_of failed_attempts =
     (if length failed_attempts > 1 then
        (let failure_times = sort (map timestamp failed_attempts);
             time_deltas = map (\<lambda>i. failure_times ! (i + 1) - failure_times ! i)
                               [0 ..< length failure_times - 1];
             avg_time_between_failures =
               divide_nearest (sum_list time_deltas) (int (length time_deltas))
         in Some (total_seconds avg_time_between_failures / 3600))
      else None)"

text \<open>
  A Python \<open>dict\<close> used as a counter keeps its keys in the order of their first
  insertion: \<open>d[k] = d.get(k, 0) + 1\<close> updates an existing entry where it stands and
  appends a new one at the end.
\<close>

fun dict_incr :: "('k \<times> nat) list \<Rightarrow> 'k \<Rightarrow> ('k \<times> nat) list" where
  "dict_incr [] k = [(k, 1)]"
| "dict_incr ((k', v) # d) k =
     (if k' = k then (k', v + 1) # d else (k', v) # dict_incr d k)"

definition count_keys :: "'k list \<Rightarrow> ('k \<times> nat) list" where
  "count_keys ks = foldl dict_incr [] ks"

text \<open>
  \<open>max(items, key=lambda x: x[1])\<close> keeps the first item whose count is maximal: a
  later item replaces the current one only when its count is strictly greater.
\<close>

fun max_by_count :: "('k \<times> nat) \<Rightarrow> ('k \<times> nat) list \<Rightarrow> ('k \<times> nat)" where
  "max_by_count best [] = best"
| "max_by_count best (x # xs) = max_by_count (if snd x > snd best then x else best) xs"

definition most_common_key :: "('k \<times> nat) list \<Rightarrow> 'k option" where
  "most_common_key d = (case d of [] \<Rightarrow> None | x # xs \<Rightarrow> Some (fst (max_by_count x xs)))"

text \<open>The built-in \<open>max\<close> on a non-empty list of numbers.\<close>

definition max_list :: "real list \<Rightarrow> real" where
  "max_list xs = fold max (tl xs) (hd xs)"

record ProviderMetrics =
  total_attempts :: nat
  failures :: nat
  failure_rate :: real
  success_rate :: real

record OverallMetrics =
  total_attempts :: nat
  successful_attempts :: nat
  failed_attempts :: nat
  failure_rate :: real
  success_rate :: real
  mtbf_hours :: real

record RetryMetrics =
  total_retries :: nat
  successful_retries :: nat
  retry_success_rate :: real
  avg_retries_per_failure :: real

record RecoveryMetrics =
  avg_recovery_time_minutes :: real
  max_recovery_time_minutes :: real
  resolved_incidents :: nat
  total_incidents :: nat

record InterventionMetrics =
  manual_interventions :: nat
  intervention_rate :: real
  intervention_types :: "(string \<times> nat) list"

record FailureAnalysis =
  failure_types_count :: "(string \<times> nat) list"
  most_common_failure :: "string option"

text \<open>
  The dictionary the reduction returns, without its \<open>timestamp\<close> entry (the clock
  at the time of the call). \<open>provider_metrics\<close> is keyed by the providers that
  occur in the attempts. The entry \<open>failure_types\<close> of \<open>failure_analysis\<close> is the
  field \<open>failure_types_count\<close>.
\<close>

record ReliabilityMetrics =
  overall_metrics :: OverallMetrics
  retry_metrics :: RetryMetrics
  recovery_metrics :: RecoveryMetrics
  intervention_metrics :: InterventionMetrics
  failure_analysis :: FailureAnalysis
  provider_metrics :: "string \<Rightarrow> ProviderMetrics option"

definition recovery_times_of :: "FailureIncident list \<Rightarrow> real list" where
  "recovery_times_of incidents =
     concat (map (\<lambda>incident.
        case resolution_time incident of
          None \<Rightarrow> []
        | Some t \<Rightarrow> [total_seconds (t - FailureIncident.timestamp incident) / 60]) incidents)"

definition provider_metrics_of :: "SignupAttempt list \<Rightarrow> string \<Rightarrow> ProviderMetrics option" where
  "provider_metrics_of signup_attempts p =
     (if p \<in> set (map provider signup_attempts) then
        (let provider_attempts = filter (\<lambda>a. provider a = p) signup_attempts;
             provider_failures = filter (\<lambda>a. \<not> success a) provider_attempts
         in Some \<lparr>ProviderMetrics.total_attempts = length provider_attempts,
                  failures = length provider_failures,
                  ProviderMetrics.failure_rate =
                    (if provider_attempts \<noteq> []
                     then real (length provider_failures) / real (length provider_attempts)
                     else 0),
                  ProviderMetrics.success_rate =
                    (if provider_attempts \<noteq> []
                     then 1 - real (length provider_failures) / real (length provider_attempts)
                     else 0)\<rparr>)
      else None)"

definition calculate_reliability_metrics ::
  "SignupAttempt list \<Rightarrow> FailureIncident list \<Rightarrow> ReliabilityMetrics" where
  "calculate_reliability_metrics signup_attempts failure_incidents =
     (let total = length signup_attempts;
          failed = filter (\<lambda>a. \<not> success a) signup_attempts;
          successful = filter success signup_attempts;
          rate = (if total > 0 then real (length failed) / real total else 0);
          retry_attempts = filter (\<lambda>a. retry_of a \<noteq> None) signup_attempts;
          original_failures =
            filter (\<lambda>a. \<not> success a \<and> retry_of a = None) signup_attempts;
          retries_ok = filter success retry_attempts;
          mtbf = mtbf_hours_of failed;
          resolved_list = filter resolved failure_incidents;
          recovery_times = (if resolved_list \<noteq> [] then recovery_times_of resolved_list else []);
          failure_type_counts =
            count_keys (map (\<lambda>i. FailureType_value (failure_type i)) failure_incidents);
          manual_list = filter manual_intervention failure_incidents;
          intervention_type_counts =
            count_keys (concat (map (\<lambda>i.
              case intervention_type i of
                None \<Rightarrow> []
              | Some t \<Rightarrow> [InterventionType_value t]) manual_list))
      in \<lparr>overall_metrics =
            \<lparr>total_attempts = total,
             successful_attempts = length successful,
             failed_attempts = length failed,
             failure_rate = rate,
             success_rate = 1 - rate,
             mtbf_hours = (case mtbf of None \<Rightarrow> 0 | Some h \<Rightarrow> h)\<rparr>,
          retry_metrics =
            \<lparr>total_retries = length retry_attempts,
             successful_retries = length retries_ok,
             retry_success_rate =
               (if original_failures \<noteq> []
                then real (length retries_ok) / real (length original_failures) else 0),
             avg_retries_per_failure =
               (if original_failures \<noteq> []
                then real (length retry_attempts) / real (length original_failures) else 0)\<rparr>,
          recovery_metrics =
            \<lparr>avg_recovery_time_minutes =
               (if recovery_times \<noteq> []
                then sum_list recovery_times / real (length recovery_times) else 0),
             max_recovery_time_minutes =
               (if recovery_times \<noteq> [] then max_list recovery_times else 0),
             resolved_incidents = length resolved_list,
             total_incidents = length failure_incidents\<rparr>,
          intervention_metrics =
            \<lparr>manual_interventions = length manual_list,
             intervention_rate =
               (if total > 0 then real (length manual_list) / real total else 0),
             intervention_types = intervention_type_counts\<rparr>,
          failure_analysis =
            \<lparr>failure_types_count = failure_type_counts,
             most_common_failure = most_common_key failure_type_counts\<rparr>,
          provider_metrics = provider_metrics_of signup_attempts\<rparr>)"

section \<open>Auxiliary notions for the statements\<close>

text \<open>
  The provider names that \<open>simulate_signup_attempts\<close> cycles through; they are the
  only providers the evaluator itself passes to the classification.
\<close>

definition providers :: "string list" where
  "providers = [''skiclubpro'', ''daysmart'', ''campminder'']"

text \<open>
  The running sum of the weights up to and including entry \<open>i\<close> of a table, added
  from the left starting at 0, as the selection loop accumulates it.
\<close>

definition cumulative_weight :: "(FailureType \<times> 'w::{zero,plus}) list \<Rightarrow> nat \<Rightarrow> 'w" where
  "cumulative_weight table i = foldl (+) 0 (map snd (take (Suc i) table))"

text \<open>
  The attempt record that round \<open>k\<close> of the cascade appends for an original attempt
  and its incident, with the given outcome.
\<close>

definition retry_signup :: "SignupAttempt \<Rightarrow> FailureIncident \<Rightarrow> nat \<Rightarrow> bool \<Rightarrow> SignupAttempt" where
  "retry_signup original_signup incident k ok =
     \<lparr>signup_id = signup_id original_signup @ ''_retry_'' @ str_of_nat k,
      user_id = user_id original_signup,
      provider = provider original_signup,
      program_id = program_id original_signup,
      timestamp = FailureIncident.timestamp incident + timedelta_minutes (k * 5),
      success = ok,
      failure_incident = None,
      retry_of = Some (signup_id original_signup)\<rparr>"

text \<open>
  The tie-break as the specification words it: among the failure types with the
  highest number of incidents, the one declared first in the enumeration.
\<close>

definition spec_most_common_failure :: "FailureIncident list \<Rightarrow> string option" where
  "spec_most_common_failure incidents =
     (if incidents = [] then None
      else (let tally = (\<lambda>c. length (filter (\<lambda>i. failure_type i = c) incidents));
                highest = fold max (map tally FailureType_members) 0
            in map_option FailureType_value
                 (find (\<lambda>c. tally c = highest) FailureType_members)))"

text \<open>
  Concrete inputs for the examples: a failed original attempt, the incident the
  classification builds for it on the draw 0.6 (a network timeout), and a ledger of
  two incidents with different failure types.
\<close>

definition example_signup :: SignupAttempt where
  "example_signup =
     \<lparr>signup_id = ''signup_0007'',
      user_id = ''user_8'',
      provider = ''skiclubpro'',
      program_id = ''program_8'',
      timestamp = 0,
      success = False,
      failure_incident = Some ''incident_1'',
      retry_of = None\<rparr>"

definition example_incident :: FailureIncident where
  "example_incident =
     generate_failure_incident ''signup_0007'' ''skiclubpro'' 0 0.6 ''incident_1''"

definition tie_incidents :: "FailureIncident list" where
  "tie_incidents =
     [generate_failure_incident ''signup_0007'' ''skiclubpro'' 0 0.6 ''incident_1'',
      generate_failure_incident ''signup_0010'' ''skiclubpro'' 0 0.1 ''incident_2'']"

section \<open>The loop of the cascade\<close>

text \<open>One unfolding of the loop for each of its three ways through an iteration.\<close>

lemma retry_loop_stop:
  "\<not> (retries < max_retries \<and> \<not> resolved incident) \<Longrightarrow>
     retry_loop rnd original_signup retries incident atts = (incident, atts)"
  by (subst retry_loop.simps) auto

lemma retry_loop_succeed:
  "retries < max_retries \<Longrightarrow> \<not> resolved incident \<Longrightarrow> rnd retries < 0.8 \<Longrightarrow>
     retry_loop rnd original_signup retries incident atts =
       (incident\<lparr>resolved := True,
                 resolution_time :=
                   Some (FailureIncident.timestamp incident + timedelta_minutes (Suc retries * 5)),
                 retry_count := Suc retries\<rparr>,
        atts @ [retry_signup original_signup incident (Suc retries) True])"
  by (subst retry_loop.simps) (simp add: retry_signup_def Let_def)

lemma retry_loop_fail:
  "retries < max_retries \<Longrightarrow> \<not> resolved incident \<Longrightarrow> \<not> rnd retries < 0.8 \<Longrightarrow>
     retry_loop rnd original_signup retries incident atts =
       retry_loop rnd original_signup (Suc retries) incident
         (atts @ [retry_signup original_signup incident (Suc retries) False])"
  by (subst retry_loop.simps) (simp add: retry_signup_def Let_def)

lemma retry_loop_first_success:
  "\<not> resolved incident \<Longrightarrow> retries < k \<Longrightarrow> k \<le> max_retries \<Longrightarrow>
   (\<forall>j. retries \<le> j \<and> j < k - 1 \<longrightarrow> \<not> rnd j < 0.8) \<Longrightarrow> rnd (k - 1) < 0.8 \<Longrightarrow>
     retry_loop rnd original_signup retries incident atts =
       (incident\<lparr>resolved := True,
                 resolution_time :=
                   Some (FailureIncident.timestamp incident + timedelta_minutes (k * 5)),
                 retry_count := k\<rparr>,
        atts @ map (\<lambda>i. retry_signup original_signup incident i (i = k)) [Suc retries ..< Suc k])"
proof (induction "k - retries" arbitrary: retries atts)
  case 0
  then show ?case by simp
next
  case (Suc d)
  show ?case
  proof (cases "Suc retries = k")
    case True
    with Suc.prems have "rnd retries < 0.8" "retries < max_retries" by auto
    with Suc.prems(1) True show ?thesis by (simp add: retry_loop_succeed)
  next
    case False
    with Suc.prems have lt: "Suc retries < k" and nr: "\<not> rnd retries < 0.8"
      and lm: "retries < max_retries" by auto
    have d: "d = k - Suc retries" using Suc.hyps(2) by simp
    have rest: "\<forall>j. Suc retries \<le> j \<and> j < k - 1 \<longrightarrow> \<not> rnd j < 0.8"
      using Suc.prems(4) by auto
    have split: "[Suc retries ..< Suc k] = Suc retries # [Suc (Suc retries) ..< Suc k]"
      using lt by (simp add: upt_conv_Cons)
    have "retry_loop rnd original_signup retries incident atts =
       retry_loop rnd original_signup (Suc retries) incident
         (atts @ [retry_signup original_signup incident (Suc retries) False])"
      using lm Suc.prems(1) nr by (rule retry_loop_fail)
    also note Suc.hyps(1) [OF d Suc.prems(1) lt Suc.prems(3) rest Suc.prems(5)]
    finally show ?thesis
      unfolding split using lt by simp
  qed
qed

lemma retry_loop_all_fail:
  "\<not> resolved incident \<Longrightarrow> retries \<le> max_retries \<Longrightarrow>
   (\<forall>j. retries \<le> j \<and> j < max_retries \<longrightarrow> \<not> rnd j < 0.8) \<Longrightarrow>
     retry_loop rnd original_signup retries incident atts =
       (incident,
        atts @ map (\<lambda>i. retry_signup original_signup incident i False)
                   [Suc retries ..< Suc max_retries])"
proof (induction "max_retries - retries" arbitrary: retries atts)
  case 0
  then have "retries = max_retries" by simp
  then show ?case by (simp add: retry_loop_stop)
next
  case (Suc d)
  then have lm: "retries < max_retries" and nr: "\<not> rnd retries < 0.8" by auto
  have d: "d = max_retries - Suc retries" using Suc.hyps(2) by simp
  have le: "Suc retries \<le> max_retries" using lm by simp
  have rest: "\<forall>j. Suc retries \<le> j \<and> j < max_retries \<longrightarrow> \<not> rnd j < 0.8"
    using Suc.prems(3) by auto
  have split: "[Suc retries ..< Suc max_retries] = Suc retries # [Suc (Suc retries) ..< Suc max_retries]"
    using lm by (simp add: upt_conv_Cons)
  have "retry_loop rnd original_signup retries incident atts =
       retry_loop rnd original_signup (Suc retries) incident
         (atts @ [retry_signup original_signup incident (Suc retries) False])"
    using lm Suc.prems(1) nr by (rule retry_loop_fail)
  also note Suc.hyps(1) [OF d Suc.prems(1) le rest]
  finally show ?case
    unfolding split by simp
qed

lemma retry_loop_shape:
  "retry_loop rnd original_signup retries incident atts = (incident', atts') \<Longrightarrow>
     \<exists>new. atts' = atts @ new \<and> length new \<le> max_retries - retries \<and>
       (\<forall>i<length new. \<exists>ok. new ! i = retry_signup original_signup incident (Suc (retries + i)) ok) \<and>
       (incident' = incident \<and> (\<forall>a\<in>set new. \<not> success a) \<and>
          (\<not> resolved incident \<longrightarrow> length new = max_retries - retries) \<or>
        new \<noteq> [] \<and> success (last new) \<and> (\<forall>a\<in>set (butlast new). \<not> success a) \<and>
        \<not> resolved incident \<and>
        incident' = incident\<lparr>resolved := True,
           resolution_time := Some (FailureIncident.timestamp incident
                                      + timedelta_minutes ((retries + length new) * 5)),
           retry_count := retries + length new\<rparr>)"
proof (induction "max_retries - retries" arbitrary: retries atts)
  case 0
  then have "incident' = incident" "atts' = atts"
    by (simp_all add: retry_loop_stop)
  with 0 show ?case by (intro exI [of _ "[]"]) auto
next
  case (Suc d)
  then have lm: "retries < max_retries" by simp
  show ?case
  proof (cases "resolved incident")
    case True
    with Suc.prems have "incident' = incident" "atts' = atts"
      by (simp_all add: retry_loop_stop)
    with True show ?thesis by (intro exI [of _ "[]"]) auto
  next
    case unres: False
    show ?thesis
    proof (cases "rnd retries < 0.8")
      case True
      with lm unres Suc.prems have
        "incident' = incident\<lparr>resolved := True,
           resolution_time := Some (FailureIncident.timestamp incident
                                      + timedelta_minutes (Suc retries * 5)),
           retry_count := Suc retries\<rparr>"
        "atts' = atts @ [retry_signup original_signup incident (Suc retries) True]"
        by (simp_all add: retry_loop_succeed)
      with lm unres show ?thesis
        by (intro exI [of _ "[retry_signup original_signup incident (Suc retries) True]"])
           (auto simp: retry_signup_def)
    next
      case False
      let ?a = "retry_signup original_signup incident (Suc retries) False"
      from lm unres False Suc.prems have
        run: "retry_loop rnd original_signup (Suc retries) incident (atts @ [?a]) = (incident', atts')"
        by (simp add: retry_loop_fail)
      have d: "d = max_retries - Suc retries" using Suc.hyps(2) by simp
      from Suc.hyps(1) [OF d run]
      obtain new where new: "atts' = (atts @ [?a]) @ new"
        "length new \<le> max_retries - Suc retries"
        "\<forall>i<length new. \<exists>ok. new ! i = retry_signup original_signup incident (Suc (Suc retries + i)) ok"
        "incident' = incident \<and> (\<forall>a\<in>set new. \<not> success a) \<and>
           (\<not> resolved incident \<longrightarrow> length new = max_retries - Suc retries) \<or>
        new \<noteq> [] \<and> success (last new) \<and> (\<forall>a\<in>set (butlast new). \<not> success a) \<and>
        \<not> resolved incident \<and>
        incident' = incident\<lparr>resolved := True,
           resolution_time := Some (FailureIncident.timestamp incident
                                      + timedelta_minutes ((Suc retries + length new) * 5)),
           retry_count := Suc retries + length new\<rparr>"
        by blast
      have nth: "\<forall>i<length (?a # new). \<exists>ok. (?a # new) ! i = retry_signup original_signup incident (Suc (retries + i)) ok"
      proof (intro allI impI)
        fix i assume "i < length (?a # new)"
        then show "\<exists>ok. (?a # new) ! i = retry_signup original_signup incident (Suc (retries + i)) ok"
          using new(3) by (cases i) auto
      qed
      have fa: "\<not> success ?a" by (simp add: retry_signup_def)
      show ?thesis
        apply (intro exI [of _ "?a # new"] conjI)
        subgoal using new(1) by simp
        subgoal using new(2) lm by simp
        subgoal using nth .
        subgoal using new(4) lm fa by (auto split: if_splits)
        done
    qed
  qed
qed

text \<open>The two paths through \<open>_simulate_retries\<close> around the loop.\<close>

lemma simulate_retries_eligible:
  "failure_type incident \<noteq> PROGRAM_FULL \<Longrightarrow> failure_type incident \<noteq> PAYMENT_DECLINED \<Longrightarrow>
   retry_loop rnd original_signup 0 incident atts = (incident1, atts1) \<Longrightarrow>
     simulate_retries rnd original_signup incident atts =
       (if resolved incident1 then (incident1, atts1)
        else (incident1\<lparr>manual_intervention := True,
                intervention_type :=
                  (case intervention_type incident1 of
                     None \<Rightarrow> Some CUSTOMER_SUPPORT | Some t \<Rightarrow> Some t)\<rparr>, atts1))"
  by (auto simp: simulate_retries_def Let_def split: option.splits)

lemma simulate_retries_skipped:
  "failure_type incident = PROGRAM_FULL \<or> failure_type incident = PAYMENT_DECLINED \<Longrightarrow>
     simulate_retries rnd original_signup incident atts = (incident, atts)"
  by (auto simp: simulate_retries_def)

lemma example_incident_fields:
  "failure_type example_incident = NETWORK_TIMEOUT"
  "\<not> resolved example_incident"
  "retry_count example_incident = 0"
  "\<not> manual_intervention example_incident"
  "intervention_type example_incident = None"
  "incident_id example_incident = ''incident_1''"
  "FailureIncident.timestamp example_incident = 0"
  by (simp_all add: example_incident_def generate_failure_incident_def select_failure_type_def
      failure_types_def manual_intervention_required_def default_intervention_type_def)

text \<open>
  A run of the cascade on the example: the first round fails, the second succeeds.
\<close>

lemma example_cascade_run:
  "retry_loop (\<lambda>j. if j = 0 then 0.93 else 0.41) example_signup 0 example_incident [] =
     (example_incident\<lparr>resolved := True, resolution_time := Some 600000000, retry_count := 2\<rparr>,
      [retry_signup example_signup example_incident 1 False,
       retry_signup example_signup example_incident 2 True])"
proof -
  have unres: "\<not> resolved example_incident" by (rule example_incident_fields)
  have "retry_loop (\<lambda>j. if j = 0 then 0.93 else 0.41) example_signup 0 example_incident [] =
       (example_incident\<lparr>resolved := True,
          resolution_time :=
            Some (FailureIncident.timestamp example_incident + timedelta_minutes (2 * 5)),
          retry_count := 2\<rparr>,
        [] @ map (\<lambda>i. retry_signup example_signup example_incident i (i = 2)) [Suc 0 ..< Suc 2])"
    using unres by (intro retry_loop_first_success) (auto simp: max_retries_def)
  then show ?thesis
    by (simp add: example_incident_fields timedelta_minutes_def upt_rec numeral_2_eq_2)
qed

section \<open>The retry cascade: claims\<close>

text \<open>
  Claim C5. For a failed original attempt whose incident is unresolved and has a
  retry-eligible failure type, if the draws of rounds 1 to \<open>k - 1\<close> fail and the draw
  of round \<open>k\<close> succeeds (\<open>1 \<le> k \<le> 3\<close>), the cascade appends exactly \<open>k\<close> retry
  attempts in round order, the first \<open>k - 1\<close> failed and the last successful, retry
  \<open>i\<close> stamped \<open>5 * i\<close> minutes after the incident and pointing back to the original
  attempt; the incident becomes resolved at \<open>5 * k\<close> minutes with \<open>retry_count = k\<close>
  and nothing else about it changes.
\<close>

theorem cascade_first_success_in_round_k:
  assumes "failure_type incident \<noteq> PROGRAM_FULL"
    and "failure_type incident \<noteq> PAYMENT_DECLINED"
    and "\<not> resolved incident"
    and "1 \<le> k" and "k \<le> 3"
    and "\<forall>j<k - 1. \<not> rnd j < 0.8"
    and "rnd (k - 1) < 0.8"
  shows "simulate_retries rnd original_signup incident atts =
     (incident\<lparr>resolved := True,
               resolution_time :=
                 Some (FailureIncident.timestamp incident + timedelta_minutes (k * 5)),
               retry_count := k\<rparr>,
      atts @ map (\<lambda>i.
        \<lparr>signup_id = signup_id original_signup @ ''_retry_'' @ str_of_nat i,
         user_id = user_id original_signup,
         provider = provider original_signup,
         program_id = program_id original_signup,
         timestamp = FailureIncident.timestamp incident + timedelta_minutes (i * 5),
         success = (i = k),
         failure_incident = None,
         retry_of = Some (signup_id original_signup)\<rparr>) [1 ..< k + 1])"
proof -
  have "retry_loop rnd original_signup 0 incident atts =
       (incident\<lparr>resolved := True,
                 resolution_time :=
                   Some (FailureIncident.timestamp incident + timedelta_minutes (k * 5)),
                 retry_count := k\<rparr>,
        atts @ map (\<lambda>i. retry_signup original_signup incident i (i = k)) [Suc 0 ..< Suc k])"
    using assms by (intro retry_loop_first_success) (auto simp: max_retries_def)
  from simulate_retries_eligible [OF assms(1,2) this]
  show ?thesis by (simp add: retry_signup_def)
qed

text \<open>
  On the example the first draw fails and the second succeeds: two retries, resolved
  after ten minutes.
\<close>

theorem cascade_first_success_in_round_k_witness:
  "simulate_retries (\<lambda>j. if j = 0 then 0.93 else 0.41) example_signup
     example_incident [example_signup] =
   (\<lparr>incident_id = ''incident_1'',
     FailureIncident.signup_id = ''signup_0007'',
     FailureIncident.provider = ''skiclubpro'',
     failure_type = NETWORK_TIMEOUT,
     FailureIncident.timestamp = 0,
     resolved = True,
     resolution_time = Some 600000000,
     retry_count = 2,
     manual_intervention = False,
     intervention_type = None,
     error_message = ''Request timed out after 30 seconds''\<rparr>,
    [example_signup,
     \<lparr>signup_id = ''signup_0007_retry_1'', user_id = ''user_8'', provider = ''skiclubpro'',
      program_id = ''program_8'', timestamp = 300000000, success = False,
      failure_incident = None, retry_of = Some ''signup_0007''\<rparr>,
     \<lparr>signup_id = ''signup_0007_retry_2'', user_id = ''user_8'', provider = ''skiclubpro'',
      program_id = ''program_8'', timestamp = 600000000, success = True,
      failure_incident = None, retry_of = Some ''signup_0007''\<rparr>])"
  using cascade_first_success_in_round_k
    [of example_incident 2
        "\<lambda>j. if j = 0 then 0.93 else 0.41" example_signup "[example_signup]"]
  by (simp add: example_incident_def generate_failure_incident_def select_failure_type_def failure_types_def
      manual_intervention_required_def default_intervention_type_def example_signup_def
      timedelta_minutes_def str_of_nat.simps upt_rec)

text \<open>
  Claim C6. For a failed original attempt whose incident is unresolved and has a
  retry-eligible failure type, if the draws of all three rounds fail, the incident
  stays unresolved, \<open>manual_intervention\<close> is set, and the intervention type becomes
  \<open>CUSTOMER_SUPPORT\<close> when the classification had set none and is kept otherwise.
\<close>

theorem cascade_exhausted_escalates:
  assumes "failure_type incident \<noteq> PROGRAM_FULL"
    and "failure_type incident \<noteq> PAYMENT_DECLINED"
    and "\<not> resolved incident"
    and "\<forall>j<3. \<not> rnd j < 0.8"
  shows "\<not> resolved (fst (simulate_retries rnd original_signup incident atts))
    \<and> manual_intervention (fst (simulate_retries rnd original_signup incident atts))
    \<and> intervention_type (fst (simulate_retries rnd original_signup incident atts)) =
        (if intervention_type incident = None then Some CUSTOMER_SUPPORT
         else intervention_type incident)"
proof -
  have "retry_loop rnd original_signup 0 incident atts =
       (incident,
        atts @ map (\<lambda>i. retry_signup original_signup incident i False)
                   [Suc 0 ..< Suc max_retries])"
    using assms by (intro retry_loop_all_fail) (auto simp: max_retries_def)
  from simulate_retries_eligible [OF assms(1,2) this] assms(3)
  show ?thesis by (auto split: option.splits)
qed

text \<open>The example incident, a network timeout without intervention type, exhausted.\<close>

theorem cascade_exhausted_escalates_witness:
  "\<not> (0.93::real) < 0.8
   \<and> failure_type example_incident
       = NETWORK_TIMEOUT
   \<and> intervention_type example_incident
       = None
   \<and> \<not> resolved (fst (simulate_retries (\<lambda>j. 0.93) example_signup
         example_incident []))
   \<and> manual_intervention (fst (simulate_retries (\<lambda>j. 0.93) example_signup
         example_incident []))
   \<and> intervention_type (fst (simulate_retries (\<lambda>j. 0.93) example_signup
         example_incident []))
       = Some CUSTOMER_SUPPORT"
  using cascade_exhausted_escalates
    [of example_incident
        "\<lambda>j. 0.93" example_signup "[]"]
  by (simp add: example_incident_def generate_failure_incident_def select_failure_type_def failure_types_def
      manual_intervention_required_def default_intervention_type_def)

text \<open>
  Claim C3. After a cascade whose three rounds all fail, three retry attempts have
  been appended, yet the incident's \<open>retry_count\<close> is still 0: only the successful
  branch of the loop stores the counter in the incident.
\<close>

theorem exhausted_cascade_retry_count_stays_zero:
  "retry_count (fst (simulate_retries (\<lambda>j. 0.93) example_signup
      example_incident [])) = 0
   \<and> length (snd (simulate_retries (\<lambda>j. 0.93) example_signup
      example_incident [])) = 3
   \<and> map success (snd (simulate_retries (\<lambda>j. 0.93) example_signup
      example_incident []))
       = [False, False, False]"
proof -
  let ?inc = example_incident
  have ft: "failure_type ?inc = NETWORK_TIMEOUT" and unres: "\<not> resolved ?inc"
    and rc: "retry_count ?inc = 0"
    by (simp_all add: example_incident_def generate_failure_incident_def select_failure_type_def failure_types_def)
  have "retry_loop (\<lambda>j. 0.93) example_signup 0 ?inc [] =
       (?inc, [] @ map (\<lambda>i. retry_signup example_signup ?inc i False)
                   [Suc 0 ..< Suc max_retries])"
    using unres by (intro retry_loop_all_fail) auto
  from simulate_retries_eligible [OF _ _ this] ft unres rc
  show ?thesis by (simp add: max_retries_def retry_signup_def upt_rec)
qed

text \<open>
  Claim C7. An incident that the classification gives the failure type
  \<open>PROGRAM_FULL\<close> or \<open>PAYMENT_DECLINED\<close> is not retried: the cascade returns the
  incident and the attempt list as they were, and the incident is unresolved, with
  \<open>retry_count = 0\<close>, no manual intervention and no intervention type.
\<close>

theorem ineligible_categories_are_not_retried:
  assumes "incident = generate_failure_incident sid provider_name ts rand new_id"
    and "failure_type incident = PROGRAM_FULL \<or> failure_type incident = PAYMENT_DECLINED"
  shows "simulate_retries rnd original_signup incident atts = (incident, atts)
    \<and> \<not> resolved incident \<and> retry_count incident = 0
    \<and> \<not> manual_intervention incident \<and> intervention_type incident = None"
proof -
  have "simulate_retries rnd original_signup incident atts = (incident, atts)"
    using assms(2) by (rule simulate_retries_skipped)
  moreover have "\<not> resolved incident" "retry_count incident = 0"
    using assms(1) by (simp_all add: generate_failure_incident_def Let_def)
  moreover have "\<not> manual_intervention incident" "intervention_type incident = None"
    using assms
    by (auto simp: generate_failure_incident_def manual_intervention_required_def
        default_intervention_type_def Let_def)
  ultimately show ?thesis by simp
qed

text \<open>On the campminder table the draw 0.25 selects \<open>PROGRAM_FULL\<close>.\<close>

theorem ineligible_categories_are_not_retried_witness:
  "failure_type (generate_failure_incident ''signup_0002'' ''campminder'' 0 0.25 ''incident_2'')
     = PROGRAM_FULL
   \<and> simulate_retries (\<lambda>j. 0.1) example_signup
       (generate_failure_incident ''signup_0002'' ''campminder'' 0 0.25 ''incident_2'')
       [example_signup]
     = (generate_failure_incident ''signup_0002'' ''campminder'' 0 0.25 ''incident_2'',
        [example_signup])
   \<and> \<not> manual_intervention
         (generate_failure_incident ''signup_0002'' ''campminder'' 0 0.25 ''incident_2'')"
proof -
  have ft: "failure_type (generate_failure_incident ''signup_0002'' ''campminder'' 0 0.25 ''incident_2'')
     = PROGRAM_FULL"
    by (simp add: generate_failure_incident_def select_failure_type_def failure_types_def)
  from ineligible_categories_are_not_retried [OF refl disjI1, OF ft,
      of "\<lambda>j. 0.1" example_signup "[example_signup]"] ft
  show ?thesis by simp
qed

text \<open>
  Claim C9. Every attempt the cascade appends (there are at most three) carries the
  user, provider and program of the original attempt; the identifier of the
  \<open>i\<close>-th one is the original identifier followed by \<open>_retry_\<close> and the round
  number \<open>i\<close> counted from 1; its \<open>retry_of\<close> is the original identifier and it has
  no incident reference.
\<close>

theorem retry_attempts_inherit_identity:
  assumes "simulate_retries rnd original_signup incident atts = (incident', atts')"
  shows "\<exists>new. atts' = atts @ new \<and> length new \<le> 3 \<and>
    (\<forall>i<length new.
       user_id (new ! i) = user_id original_signup
     \<and> provider (new ! i) = provider original_signup
     \<and> program_id (new ! i) = program_id original_signup
     \<and> signup_id (new ! i) = signup_id original_signup @ ''_retry_'' @ str_of_nat (i + 1)
     \<and> retry_of (new ! i) = Some (signup_id original_signup)
     \<and> failure_incident (new ! i) = None)"
proof (cases "failure_type incident = PROGRAM_FULL \<or> failure_type incident = PAYMENT_DECLINED")
  case True
  with assms have "atts' = atts" by (simp add: simulate_retries_skipped)
  then show ?thesis by (intro exI [of _ "[]"]) simp
next
  case False
  obtain incident1 atts1 where
    run: "retry_loop rnd original_signup 0 incident atts = (incident1, atts1)"
    by (cases "retry_loop rnd original_signup 0 incident atts")
  from False simulate_retries_eligible [OF _ _ run] assms
  have same: "atts' = atts1" by (auto split: if_splits)
  from retry_loop_shape [OF run] obtain new where
    new: "atts1 = atts @ new" "length new \<le> max_retries - 0"
      "\<forall>i<length new. \<exists>ok. new ! i = retry_signup original_signup incident (Suc (0 + i)) ok"
    by blast
  have "\<forall>i<length new.
       user_id (new ! i) = user_id original_signup
     \<and> provider (new ! i) = provider original_signup
     \<and> program_id (new ! i) = program_id original_signup
     \<and> signup_id (new ! i) = signup_id original_signup @ ''_retry_'' @ str_of_nat (i + 1)
     \<and> retry_of (new ! i) = Some (signup_id original_signup)
     \<and> failure_incident (new ! i) = None"
  proof (intro allI impI)
    fix i assume "i < length new"
    with new(3) obtain ok where "new ! i = retry_signup original_signup incident (Suc (0 + i)) ok"
      by blast
    then show "user_id (new ! i) = user_id original_signup
     \<and> provider (new ! i) = provider original_signup
     \<and> program_id (new ! i) = program_id original_signup
     \<and> signup_id (new ! i) = signup_id original_signup @ ''_retry_'' @ str_of_nat (i + 1)
     \<and> retry_of (new ! i) = Some (signup_id original_signup)
     \<and> failure_incident (new ! i) = None"
      by (simp add: retry_signup_def)
  qed
  with new(1,2) same show ?thesis
    by (intro exI [of _ new]) (simp add: max_retries_def)
qed

text \<open>The second retry of the example run.\<close>

theorem retry_attempts_inherit_identity_witness:
  "length (snd (simulate_retries (\<lambda>j. if j = 0 then 0.93 else 0.41)
                  example_signup example_incident [])) = 2
   \<and> signup_id (snd (simulate_retries (\<lambda>j. if j = 0 then 0.93 else 0.41)
                  example_signup example_incident []) ! 1) = ''signup_0007_retry_2''
   \<and> user_id (snd (simulate_retries (\<lambda>j. if j = 0 then 0.93 else 0.41)
                  example_signup example_incident []) ! 1) = ''user_8''
   \<and> retry_of (snd (simulate_retries (\<lambda>j. if j = 0 then 0.93 else 0.41)
                  example_signup example_incident []) ! 1) = Some ''signup_0007''
   \<and> failure_incident (snd (simulate_retries (\<lambda>j. if j = 0 then 0.93 else 0.41)
                  example_signup example_incident []) ! 1) = None"
proof -
  define r where
    "r = simulate_retries (\<lambda>j. if j = 0 then 0.93 else 0.41) example_signup example_incident []"
  have len: "length (snd r) = 2"
    unfolding r_def
    using simulate_retries_eligible [OF _ _ example_cascade_run]
    by (simp add: example_incident_fields)
  have run: "simulate_retries (\<lambda>j. if j = 0 then 0.93 else 0.41)
               example_signup example_incident [] = (fst r, snd r)"
    by (simp add: r_def)
  from retry_attempts_inherit_identity [OF run] obtain new where
    new: "snd r = [] @ new"
    and each: "\<forall>i<length new.
       user_id (new ! i) = user_id example_signup
     \<and> provider (new ! i) = provider example_signup
     \<and> program_id (new ! i) = program_id example_signup
     \<and> signup_id (new ! i) = signup_id example_signup @ ''_retry_'' @ str_of_nat (i + 1)
     \<and> retry_of (new ! i) = Some (signup_id example_signup)
     \<and> failure_incident (new ! i) = None"
    by blast
  from new len have "1 < length new" by simp
  with each have
      "user_id (new ! 1) = user_id example_signup
     \<and> signup_id (new ! 1) = signup_id example_signup @ ''_retry_'' @ str_of_nat (1 + 1)
     \<and> retry_of (new ! 1) = Some (signup_id example_signup)
     \<and> failure_incident (new ! 1) = None"
    by blast
  with new len show ?thesis
    unfolding r_def [symmetric]
    by (simp add: example_signup_def str_of_nat.simps)
qed

text \<open>
  Claim C10. Every run of the cascade leaves the incident's \<open>incident_id\<close>,
  \<open>signup_id\<close>, \<open>provider\<close>, \<open>failure_type\<close>, \<open>timestamp\<close> and \<open>error_message\<close>
  as they were, and when the incident comes out resolved its \<open>manual_intervention\<close>
  and \<open>intervention_type\<close> are the ones it went in with.
\<close>

theorem cascade_frame:
  assumes "simulate_retries rnd original_signup incident atts = (incident', atts')"
  shows "incident_id incident' = incident_id incident
    \<and> FailureIncident.signup_id incident' = FailureIncident.signup_id incident
    \<and> FailureIncident.provider incident' = FailureIncident.provider incident
    \<and> failure_type incident' = failure_type incident
    \<and> FailureIncident.timestamp incident' = FailureIncident.timestamp incident
    \<and> error_message incident' = error_message incident
    \<and> (resolved incident' \<longrightarrow>
          manual_intervention incident' = manual_intervention incident
        \<and> intervention_type incident' = intervention_type incident)"
proof (cases "failure_type incident = PROGRAM_FULL \<or> failure_type incident = PAYMENT_DECLINED")
  case True
  with assms have "incident' = incident" by (simp add: simulate_retries_skipped)
  then show ?thesis by simp
next
  case False
  obtain incident1 atts1 where
    run: "retry_loop rnd original_signup 0 incident atts = (incident1, atts1)"
    by (cases "retry_loop rnd original_signup 0 incident atts")
  from False simulate_retries_eligible [OF _ _ run] assms
  have res: "incident' =
       (if resolved incident1 then incident1
        else incident1\<lparr>manual_intervention := True,
                intervention_type :=
                  (case intervention_type incident1 of
                     None \<Rightarrow> Some CUSTOMER_SUPPORT | Some t \<Rightarrow> Some t)\<rparr>)"
    by (auto split: if_splits)
  from retry_loop_shape [OF run] obtain k t where
    "incident1 = incident \<or>
     incident1 = incident\<lparr>resolved := True, resolution_time := Some t, retry_count := k\<rparr>"
    by blast
  with res show ?thesis by (auto split: if_splits)
qed

text \<open>The example run resolves the incident and keeps the classification's fields.\<close>

theorem cascade_frame_witness:
  "resolved (fst (simulate_retries (\<lambda>j. if j = 0 then 0.93 else 0.41)
                    example_signup example_incident []))
   \<and> incident_id (fst (simulate_retries (\<lambda>j. if j = 0 then 0.93 else 0.41)
                    example_signup example_incident [])) = ''incident_1''
   \<and> failure_type (fst (simulate_retries (\<lambda>j. if j = 0 then 0.93 else 0.41)
                    example_signup example_incident [])) = NETWORK_TIMEOUT
   \<and> \<not> manual_intervention (fst (simulate_retries (\<lambda>j. if j = 0 then 0.93 else 0.41)
                    example_signup example_incident []))
   \<and> intervention_type (fst (simulate_retries (\<lambda>j. if j = 0 then 0.93 else 0.41)
                    example_signup example_incident [])) = None"
proof -
  define r where
    "r = simulate_retries (\<lambda>j. if j = 0 then 0.93 else 0.41) example_signup example_incident []"
  have res: "resolved (fst r)"
    unfolding r_def
    using simulate_retries_eligible [OF _ _ example_cascade_run]
    by (simp add: example_incident_fields)
  have run: "simulate_retries (\<lambda>j. if j = 0 then 0.93 else 0.41)
               example_signup example_incident [] = (fst r, snd r)"
    by (simp add: r_def)
  from cascade_frame [OF run] res show ?thesis
    unfolding r_def [symmetric]
    by (simp add: example_incident_fields)
qed

section \<open>Classification: claims\<close>

text \<open>The selection loop finds the first entry whose running sum reaches the draw.\<close>

lemma select_loop_first:
  "i < length table \<Longrightarrow> rand \<le> foldl (+) c (map snd (take (Suc i) table)) \<Longrightarrow>
   (\<forall>j<i. \<not> rand \<le> foldl (+) c (map snd (take (Suc j) table))) \<Longrightarrow>
     select_loop rand c d table = fst (table ! i)"
proof (induction table arbitrary: c i)
  case Nil
  then show ?case by simp
next
  case (Cons e rest)
  obtain ft w where e: "e = (ft, w)" by (cases e)
  show ?case
  proof (cases i)
    case 0
    with Cons.prems e show ?thesis by simp
  next
    case (Suc i')
    from Cons.prems(3) Suc have miss: "\<not> rand \<le> c + w"
      using e by (auto dest: spec [of _ 0])
    have later: "\<forall>j<i'. \<not> rand \<le> foldl (+) (c + w) (map snd (take (Suc j) rest))"
    proof (intro allI impI)
      fix j assume "j < i'"
      then have "Suc j < i" using Suc by simp
      with Cons.prems(3) show "\<not> rand \<le> foldl (+) (c + w) (map snd (take (Suc j) rest))"
        using e by (auto dest: spec [of _ "Suc j"])
    qed
    have "select_loop rand (c + w) d rest = fst (rest ! i')"
      using Cons.prems(1,2) Suc e later by (intro Cons.IH) auto
    with miss e Suc show ?thesis by simp
  qed
qed

lemma select_loop_default:
  "(\<forall>j<length table. \<not> rand \<le> foldl (+) c (map snd (take (Suc j) table))) \<Longrightarrow>
     select_loop rand c d table = d"
proof (induction table arbitrary: c)
  case Nil
  then show ?case by simp
next
  case (Cons e rest)
  obtain ft w where e: "e = (ft, w)" by (cases e)
  from Cons.prems have miss: "\<not> rand \<le> c + w"
    using e by (auto dest: spec [of _ 0])
  have later: "\<forall>j<length rest. \<not> rand \<le> foldl (+) (c + w) (map snd (take (Suc j) rest))"
  proof (intro allI impI)
    fix j assume "j < length rest"
    then have "Suc j < length (e # rest)" by simp
    with Cons.prems show "\<not> rand \<le> foldl (+) (c + w) (map snd (take (Suc j) rest))"
      using e by (auto dest: spec [of _ "Suc j"])
  qed
  from Cons.IH [OF later] miss e show ?case by simp
qed

text \<open>
  Claim C8. For every table and every draw the selection returns the failure type of
  the first entry whose cumulative weight is at least the draw, and
  \<open>NETWORK_TIMEOUT\<close> when no entry's cumulative weight reaches it; it is a total
  function, with no error case. The classification of every provider selects its
  failure type this way from the provider's table.
\<close>

theorem selection_takes_first_category_reaching_draw:
  "(\<forall>i<length table.
       rand \<le> cumulative_weight table i \<and> (\<forall>j<i. \<not> rand \<le> cumulative_weight table j)
       \<longrightarrow> select_failure_type rand table = fst (table ! i))
   \<and> ((\<forall>i<length table. \<not> rand \<le> cumulative_weight table i)
       \<longrightarrow> select_failure_type rand table = NETWORK_TIMEOUT)
   \<and> failure_type (generate_failure_incident sid provider_name ts draw new_id)
       = select_failure_type draw (failure_types provider_name)"
  unfolding select_failure_type_def cumulative_weight_def
  by (auto intro: select_loop_first select_loop_default
      simp: generate_failure_incident_def Let_def select_failure_type_def)

text \<open>
  On the daysmart table the draw 0.3 is first reached by the second entry; a value
  above every cumulative weight gives the default.
\<close>

theorem selection_takes_first_category_reaching_draw_witness:
  "(0.3::real) \<le> cumulative_weight (failure_types ''daysmart'') 1
   \<and> \<not> (0.3::real) \<le> cumulative_weight (failure_types ''daysmart'') 0
   \<and> select_failure_type (0.3::real) (failure_types ''daysmart'') = PROGRAM_FULL
   \<and> \<not> (1.5::real) \<le> cumulative_weight (failure_types ''daysmart'') 4
   \<and> select_failure_type (1.5::real) (failure_types ''daysmart'') = NETWORK_TIMEOUT"
proof -
  have cw: "cumulative_weight (failure_types ''daysmart'') 0 = (0.25::real)"
    "cumulative_weight (failure_types ''daysmart'') 1 = (0.5::real)"
    "cumulative_weight (failure_types ''daysmart'') 2 = (0.7::real)"
    "cumulative_weight (failure_types ''daysmart'') 3 = (0.85::real)"
    "cumulative_weight (failure_types ''daysmart'') 4 = (1::real)"
    by (simp_all add: cumulative_weight_def failure_types_def take_Suc_conv_app_nth eval_nat_numeral)
  have len: "length (failure_types ''daysmart'') = 5" by (simp add: failure_types_def)
  have all: "\<forall>i<length (failure_types ''daysmart'').
      \<not> (1.5::real) \<le> cumulative_weight (failure_types ''daysmart'') i"
  proof (intro allI impI)
    fix i assume "i < length (failure_types ''daysmart'')"
    then have "i = 0 \<or> i = 1 \<or> i = 2 \<or> i = 3 \<or> i = 4" using len by auto
    then show "\<not> (1.5::real) \<le> cumulative_weight (failure_types ''daysmart'') i"
      using cw by auto
  qed
  have first: "\<forall>j<(1::nat). \<not> (0.3::real) \<le> cumulative_weight (failure_types ''daysmart'') j"
    using cw by simp
  from selection_takes_first_category_reaching_draw
    [of "failure_types ''daysmart''" "0.3::real"]
  have "select_failure_type (0.3::real) (failure_types ''daysmart'')
          = fst (failure_types ''daysmart'' ! 1)"
    using cw first len by auto
  moreover from selection_takes_first_category_reaching_draw
    [of "failure_types ''daysmart''" "1.5::real"] all
  have "select_failure_type (1.5::real) (failure_types ''daysmart'') = NETWORK_TIMEOUT"
    by blast
  ultimately show ?thesis using cw by (simp add: failure_types_def)
qed

text \<open>
  Claim C1 does not hold as stated: a provider that is none of the configured ones
  is classified without any error, from the table of the \<open>else\<close> branch.
\<close>

theorem unknown_provider_is_classified_counterexample:
  "''acme'' \<notin> set providers
   \<and> failure_types ''acme'' = failure_types ''campminder''
   \<and> generate_failure_incident ''signup_0003'' ''acme'' 0 0.25 ''incident_3'' =
       \<lparr>incident_id = ''incident_3'',
        FailureIncident.signup_id = ''signup_0003'',
        FailureIncident.provider = ''acme'',
        failure_type = PROGRAM_FULL,
        FailureIncident.timestamp = 0,
        resolved = False,
        resolution_time = None,
        retry_count = 0,
        manual_intervention = False,
        intervention_type = None,
        error_message = ''This program is currently full''\<rparr>"
  by (simp add: providers_def failure_types_def generate_failure_incident_def
      select_failure_type_def manual_intervention_required_def default_intervention_type_def)

text \<open>
  Claim C1, amended. For every provider string that is not one of the configured
  providers the classification does not fail: it selects the failure type from the
  campminder weight table, the table of the source's \<open>else\<close> branch, and returns
  the incident it would return for campminder, carrying the given provider string.
\<close>

theorem unknown_provider_uses_campminder_table:
  assumes "provider_name \<notin> set providers"
  shows "failure_types provider_name = failure_types ''campminder''
    \<and> generate_failure_incident sid provider_name ts rand new_id =
        (generate_failure_incident sid ''campminder'' ts rand new_id)
          \<lparr>FailureIncident.provider := provider_name\<rparr>"
  using assms by (simp add: providers_def failure_types_def generate_failure_incident_def Let_def)

text \<open>The provider \<open>acme\<close> is not configured.\<close>

theorem unknown_provider_uses_campminder_table_witness:
  "''acme'' \<notin> set providers
   \<and> failure_types ''acme'' = failure_types ''campminder''
   \<and> generate_failure_incident ''signup_0003'' ''acme'' 0 0.25 ''incident_3'' =
        (generate_failure_incident ''signup_0003'' ''campminder'' 0 0.25 ''incident_3'')
          \<lparr>FailureIncident.provider := ''acme''\<rparr>"
proof -
  have h: "''acme'' \<notin> set providers" by (simp add: providers_def)
  from unknown_provider_uses_campminder_table [OF h] h show ?thesis by simp
qed

section \<open>The metrics reduction: claims\<close>

text \<open>
  Claim C2 does not hold as stated: a ledger with a single failed attempt reports the
  number 0 as its MTBF, the same value that two failures at the same instant give.
\<close>

theorem mtbf_of_single_failure_is_zero_counterexample:
  "length (filter (\<lambda>a. \<not> success a) [example_signup]) = 1
   \<and> mtbf_hours (overall_metrics (calculate_reliability_metrics [example_signup] [])) = 0
   \<and> mtbf_hours (overall_metrics
        (calculate_reliability_metrics [example_signup, example_signup] [])) = 0"
  by (simp add: calculate_reliability_metrics_def mtbf_hours_of_def example_signup_def
      divide_nearest_def total_seconds_def Let_def)

text \<open>
  Claim C2, amended. For every ledger with at most one failed attempt the MTBF is
  internally the infinite sentinel, and the \<open>mtbf_hours\<close> field of the snapshot is
  the number 0; no error is raised.
\<close>

theorem mtbf_reported_as_zero_below_two_failures:
  assumes "length (filter (\<lambda>a. \<not> success a) signup_attempts) \<le> 1"
  shows "mtbf_hours_of (filter (\<lambda>a. \<not> success a) signup_attempts) = None
    \<and> mtbf_hours (overall_metrics
        (calculate_reliability_metrics signup_attempts failure_incidents)) = 0"
  using assms by (simp add: calculate_reliability_metrics_def mtbf_hours_of_def Let_def)

text \<open>A ledger holding the one failed example attempt.\<close>

theorem mtbf_reported_as_zero_below_two_failures_witness:
  "length (filter (\<lambda>a. \<not> success a) [example_signup]) \<le> 1
   \<and> mtbf_hours_of (filter (\<lambda>a. \<not> success a) [example_signup]) = None
   \<and> mtbf_hours (overall_metrics (calculate_reliability_metrics [example_signup] [])) = 0"
proof -
  have h: "length (filter (\<lambda>a. \<not> success a) [example_signup]) \<le> 1" by simp
  from mtbf_reported_as_zero_below_two_failures [OF h] h show ?thesis by simp
qed

text \<open>
  The counting dictionary: its keys are the distinct keys counted, in the order of
  their first occurrence, each with its number of occurrences.
\<close>

lemma dict_incr_keys:
  "map fst (dict_incr d k) = (if k \<in> fst ` set d then map fst d else map fst d @ [k])"
  by (induction d) (auto simp: rev_image_eqI)

lemma dict_incr_lookup:
  "map_of (dict_incr d k) =
     (map_of d)(k \<mapsto> (case map_of d k of None \<Rightarrow> 1 | Some n \<Rightarrow> n + 1))"
  by (induction d) (auto simp: fun_eq_iff)

lemma count_keys_snoc: "count_keys (ks @ [k]) = dict_incr (count_keys ks) k"
  by (simp add: count_keys_def)

lemma dict_incr_keys_set: "fst ` set (dict_incr d k) = insert k (fst ` set d)"
proof -
  have "set (map fst (dict_incr d k)) = insert k (set (map fst d))"
    unfolding dict_incr_keys by auto
  then show ?thesis by simp
qed

lemma count_keys_keys_set: "fst ` set (count_keys ks) = set ks"
proof (induction ks rule: rev_induct)
  case Nil
  show ?case by (simp add: count_keys_def)
next
  case (snoc k ks)
  then show ?case by (simp add: count_keys_snoc dict_incr_keys_set)
qed

lemma count_keys_distinct: "distinct (map fst (count_keys ks))"
proof (induction ks rule: rev_induct)
  case Nil
  show ?case by (simp add: count_keys_def)
next
  case (snoc k ks)
  then show ?case by (simp add: count_keys_snoc dict_incr_keys)
qed

lemma count_keys_lookup:
  "map_of (count_keys ks) k = (if k \<in> set ks then Some (count_list ks k) else None)"
proof (induction ks rule: rev_induct)
  case Nil
  show ?case by (simp add: count_keys_def)
next
  case (snoc x ks)
  then show ?case by (auto simp: count_keys_snoc dict_incr_lookup)
qed

lemma count_keys_entry:
  "(k, n) \<in> set (count_keys ks) \<Longrightarrow> k \<in> set ks \<and> n = count_list ks k"
proof -
  assume mem: "(k, n) \<in> set (count_keys ks)"
  then have "map_of (count_keys ks) k = Some n"
    using count_keys_distinct [of ks] by simp
  then show ?thesis by (simp add: count_keys_lookup split: if_splits)
qed

lemma count_keys_prefix:
  "\<exists>extra. map fst (count_keys (ks @ ks')) = map fst (count_keys ks) @ extra"
proof (induction ks' rule: rev_induct)
  case Nil
  show ?case by simp
next
  case (snoc x ks')
  then obtain extra where "map fst (count_keys (ks @ ks')) = map fst (count_keys ks) @ extra"
    by blast
  then show ?case
    by (simp add: count_keys_snoc [of "ks @ ks'" x, simplified] dict_incr_keys)
qed

lemma max_by_count_pick:
  "max_by_count best xs = m \<Longrightarrow>
     (m = best \<and> (\<forall>q\<in>set xs. snd q \<le> snd best)) \<or>
     (\<exists>pre post. xs = pre @ m # post \<and> snd best < snd m \<and>
        (\<forall>p\<in>set pre. snd p < snd m) \<and> (\<forall>q\<in>set post. snd q \<le> snd m))"
proof (induction xs arbitrary: best)
  case Nil
  then show ?case by simp
next
  case (Cons x xs)
  show ?case
  proof (cases "snd x > snd best")
    case True
    with Cons.prems have "max_by_count x xs = m" by simp
    from Cons.IH [OF this] show ?thesis
    proof
      assume "m = x \<and> (\<forall>q\<in>set xs. snd q \<le> snd x)"
      with True have "x # xs = [] @ m # xs \<and> snd best < snd m \<and>
        (\<forall>p\<in>set []. snd p < snd m) \<and> (\<forall>q\<in>set xs. snd q \<le> snd m)" by simp
      then show ?thesis by blast
    next
      assume "\<exists>pre post. xs = pre @ m # post \<and> snd x < snd m \<and>
        (\<forall>p\<in>set pre. snd p < snd m) \<and> (\<forall>q\<in>set post. snd q \<le> snd m)"
      then obtain pre post where "xs = pre @ m # post" "snd x < snd m"
        "\<forall>p\<in>set pre. snd p < snd m" "\<forall>q\<in>set post. snd q \<le> snd m" by blast
      with True have "x # xs = (x # pre) @ m # post \<and> snd best < snd m \<and>
        (\<forall>p\<in>set (x # pre). snd p < snd m) \<and> (\<forall>q\<in>set post. snd q \<le> snd m)" by auto
      then show ?thesis by blast
    qed
  next
    case False
    with Cons.prems have "max_by_count best xs = m" by simp
    from Cons.IH [OF this] show ?thesis
    proof
      assume "m = best \<and> (\<forall>q\<in>set xs. snd q \<le> snd best)"
      with False show ?thesis by auto
    next
      assume "\<exists>pre post. xs = pre @ m # post \<and> snd best < snd m \<and>
        (\<forall>p\<in>set pre. snd p < snd m) \<and> (\<forall>q\<in>set post. snd q \<le> snd m)"
      then obtain pre post where "xs = pre @ m # post" "snd best < snd m"
        "\<forall>p\<in>set pre. snd p < snd m" "\<forall>q\<in>set post. snd q \<le> snd m" by blast
      with False have "x # xs = (x # pre) @ m # post \<and> snd best < snd m \<and>
        (\<forall>p\<in>set (x # pre). snd p < snd m) \<and> (\<forall>q\<in>set post. snd q \<le> snd m)" by auto
      then show ?thesis by blast
    qed
  qed
qed

lemma most_common_key_pick:
  "d \<noteq> [] \<Longrightarrow>
     \<exists>m pre post. most_common_key d = Some (fst m) \<and> d = pre @ m # post \<and>
        (\<forall>p\<in>set pre. snd p < snd m) \<and> (\<forall>q\<in>set post. snd q \<le> snd m)"
proof -
  assume "d \<noteq> []"
  then obtain x xs where d: "d = x # xs" by (cases d) auto
  define m where "m = max_by_count x xs"
  have mc: "most_common_key d = Some (fst m)" by (simp add: most_common_key_def d m_def)
  from max_by_count_pick [OF m_def [symmetric]] show ?thesis
  proof
    assume "m = x \<and> (\<forall>q\<in>set xs. snd q \<le> snd x)"
    with mc d have "most_common_key d = Some (fst m) \<and> d = [] @ m # xs \<and>
        (\<forall>p\<in>set []. snd p < snd m) \<and> (\<forall>q\<in>set xs. snd q \<le> snd m)" by simp
    then show ?thesis by blast
  next
    assume "\<exists>pre post. xs = pre @ m # post \<and> snd x < snd m \<and>
        (\<forall>p\<in>set pre. snd p < snd m) \<and> (\<forall>q\<in>set post. snd q \<le> snd m)"
    then obtain pre post where "xs = pre @ m # post" "snd x < snd m"
        "\<forall>p\<in>set pre. snd p < snd m" "\<forall>q\<in>set post. snd q \<le> snd m" by blast
    with mc d have "most_common_key d = Some (fst m) \<and> d = (x # pre) @ m # post \<and>
        (\<forall>p\<in>set (x # pre). snd p < snd m) \<and> (\<forall>q\<in>set post. snd q \<le> snd m)" by auto
    then show ?thesis by blast
  qed
qed

lemma most_common_key_count_keys:
  assumes "ks \<noteq> []"
  shows "\<exists>v pre post. most_common_key (count_keys ks) = Some v \<and> ks = pre @ v # post \<and>
     v \<notin> set pre \<and> (\<forall>c\<in>set pre. count_list ks c < count_list ks v) \<and>
     (\<forall>c. count_list ks c \<le> count_list ks v)"
proof -
  let ?d = "count_keys ks"
  have "fst ` set ?d = set ks" by (rule count_keys_keys_set)
  with assms have "?d \<noteq> []" by auto
  from most_common_key_pick [OF this] obtain m dpre dpost where
    mc: "most_common_key ?d = Some (fst m)" and d: "?d = dpre @ m # dpost"
    and lt: "\<forall>p\<in>set dpre. snd p < snd m" and le: "\<forall>q\<in>set dpost. snd q \<le> snd m"
    by blast
  obtain v n where m: "m = (v, n)" by (cases m)
  have ent: "\<And>k c. (k, c) \<in> set ?d \<Longrightarrow> k \<in> set ks \<and> c = count_list ks k"
    by (rule count_keys_entry)
  have "(v, n) \<in> set ?d" using d m by simp
  from ent [OF this] have v: "v \<in> set ks" and n: "n = count_list ks v" by simp_all
  from split_list_first [OF v] obtain pre post where
    ks: "ks = pre @ v # post" and fresh: "v \<notin> set pre" by blast
  have keys: "map fst ?d = map fst dpre @ v # map fst dpost" using d m by simp
  have dist: "distinct (map fst ?d)" by (rule count_keys_distinct)
  \<comment> \<open>the keys of the dictionary before v are exactly the keys of the prefix\<close>
  have pv: "map fst (count_keys (pre @ [v])) = map fst (count_keys pre) @ [v]"
    using fresh by (simp add: count_keys_snoc dict_incr_keys count_keys_keys_set)
  from count_keys_prefix [of "pre @ [v]" post] obtain extra where
    "map fst (count_keys ((pre @ [v]) @ post)) = map fst (count_keys (pre @ [v])) @ extra"
    by blast
  with pv ks have keys': "map fst ?d = map fst (count_keys pre) @ v # extra" by simp
  have out: "v \<notin> set (map fst dpre)" "v \<notin> set (map fst dpost)"
    using dist keys by auto
  have "map fst dpre @ v # map fst dpost = map fst (count_keys pre) @ v # extra"
    using keys keys' by simp
  then have same: "map fst dpre = map fst (count_keys pre)"
    using append_Cons_eq_iff [OF out] by blast
  have before: "\<forall>c\<in>set pre. count_list ks c < count_list ks v"
  proof
    fix c assume "c \<in> set pre"
    then have "c \<in> set (map fst dpre)" using same count_keys_keys_set [of pre] by simp
    then obtain k where k: "(c, k) \<in> set dpre" by auto
    then have "(c, k) \<in> set ?d" using d by simp
    from ent [OF this] have "k = count_list ks c" by simp
    with lt k m n show "count_list ks c < count_list ks v" by auto
  qed
  have all: "\<forall>c. count_list ks c \<le> count_list ks v"
  proof
    fix c
    show "count_list ks c \<le> count_list ks v"
    proof (cases "c \<in> set ks")
      case False
      then show ?thesis by (simp add: count_list_0_iff)
    next
      case True
      then have "c \<in> set (map fst ?d)" by (simp add: count_keys_keys_set)
      then obtain k where k: "(c, k) \<in> set ?d" by auto
      from ent [OF this] have kc: "k = count_list ks c" by simp
      from k d consider "(c, k) \<in> set dpre" | "(c, k) = m" | "(c, k) \<in> set dpost" by auto
      then show ?thesis
      proof cases
        case 1
        with lt kc m n show ?thesis by auto
      next
        case 2
        with kc m n show ?thesis by auto
      next
        case 3
        with le kc m n show ?thesis by auto
      qed
    qed
  qed
  from mc m have "most_common_key ?d = Some v" by simp
  with ks fresh before all show ?thesis by blast
qed

lemma map_split_at:
  "map f xs = ys @ y # zs \<Longrightarrow>
     \<exists>pre x post. xs = pre @ x # post \<and> map f pre = ys \<and> y = f x"
proof (induction ys arbitrary: xs)
  case Nil
  then obtain x post where "xs = x # post" "y = f x" by (cases xs) auto
  then show ?case
    by (intro exI [of _ "[]"] exI [of _ x] exI [of _ post]) simp
next
  case (Cons a ys)
  from Cons.prems obtain b xs' where xs: "xs = b # xs'" and b: "f b = a"
    and tl: "map f xs' = ys @ y # zs" by (cases xs) auto
  from Cons.IH [OF tl] obtain pre x post where
    "xs' = pre @ x # post" "map f pre = ys" "y = f x" by blast
  with xs b show ?case
    by (intro exI [of _ "b # pre"] exI [of _ x] exI [of _ post]) simp
qed

lemma FailureType_value_inj: "FailureType_value a = FailureType_value b \<Longrightarrow> a = b"
  by (cases a; cases b) simp_all

lemma FailureType_value_eq_iff: "FailureType_value a = FailureType_value b \<longleftrightarrow> a = b"
  using FailureType_value_inj by blast

lemma count_list_FailureType_value:
  "count_list (map FailureType_value fts) (FailureType_value c) = count_list fts c"
  by (induction fts) (simp_all add: FailureType_value_eq_iff)

lemma most_common_failure_eq:
  "most_common_failure (failure_analysis
      (calculate_reliability_metrics signup_attempts failure_incidents)) =
   most_common_key (count_keys (map FailureType_value (map failure_type failure_incidents)))"
  by (simp add: calculate_reliability_metrics_def Let_def comp_def)

lemma tie_incidents_types:
  "map failure_type tie_incidents = [NETWORK_TIMEOUT, AUTHENTICATION_FAILED]"
  by (simp add: tie_incidents_def generate_failure_incident_def select_failure_type_def
      failure_types_def)

text \<open>
  Claim C4 does not hold as stated: with one network timeout followed by one
  authentication failure the snapshot names the network timeout, although
  \<open>AUTHENTICATION_FAILED\<close> is declared first.
\<close>

theorem most_common_failure_declaration_order_counterexample:
  "map failure_type tie_incidents = [NETWORK_TIMEOUT, AUTHENTICATION_FAILED]
   \<and> most_common_failure (failure_analysis (calculate_reliability_metrics [] tie_incidents))
       = Some ''network_timeout''
   \<and> spec_most_common_failure tie_incidents = Some ''authentication_failed''"
proof -
  have a: "most_common_failure (failure_analysis (calculate_reliability_metrics [] tie_incidents))
       = Some ''network_timeout''"
    unfolding most_common_failure_eq tie_incidents_types
    by (simp add: count_keys_def most_common_key_def)
  have ne: "tie_incidents \<noteq> []" by (simp add: tie_incidents_def)
  have t: "\<And>c. length (filter (\<lambda>i. failure_type i = c) tie_incidents) =
      count_list (map failure_type tie_incidents) c"
    by (simp add: tie_incidents_def)
  have b: "spec_most_common_failure tie_incidents = Some ''authentication_failed''"
    unfolding spec_most_common_failure_def Let_def t tie_incidents_types
    using ne by (simp add: FailureType_members_def)
  from a b tie_incidents_types show ?thesis by simp
qed

text \<open>
  Claim C4, amended. For every non-empty list of incidents the most common failure
  is the failure type \<open>ft\<close> with the highest incident count whose first incident
  comes earliest in the ledger: every failure type met before the first incident of
  \<open>ft\<close> has strictly fewer incidents, and no failure type has more. The result is
  a function of the ledger, so repeated reductions agree.
\<close>

theorem most_common_failure_is_first_encountered_maximum:
  assumes "failure_incidents \<noteq> []"
  shows "\<exists>ft pre post.
      most_common_failure (failure_analysis
        (calculate_reliability_metrics signup_attempts failure_incidents))
        = Some (FailureType_value ft)
    \<and> map failure_type failure_incidents = pre @ ft # post
    \<and> ft \<notin> set pre
    \<and> (\<forall>c\<in>set pre. count_list (map failure_type failure_incidents) c
                      < count_list (map failure_type failure_incidents) ft)
    \<and> (\<forall>c. count_list (map failure_type failure_incidents) c
            \<le> count_list (map failure_type failure_incidents) ft)"
proof -
  define fts where "fts = map failure_type failure_incidents"
  define ks where "ks = map FailureType_value fts"
  have "ks \<noteq> []" using assms by (simp add: ks_def fts_def)
  from most_common_key_count_keys [OF this] obtain v kpre kpost where
    mc: "most_common_key (count_keys ks) = Some v" and split: "ks = kpre @ v # kpost"
    and fresh: "v \<notin> set kpre"
    and before: "\<forall>c\<in>set kpre. count_list ks c < count_list ks v"
    and all: "\<forall>c. count_list ks c \<le> count_list ks v"
    by blast
  from split have "map FailureType_value fts = kpre @ v # kpost" by (simp add: ks_def)
  from map_split_at [OF this] obtain pre ft post where 2: "fts = pre @ ft # post"
    and pre: "map FailureType_value pre = kpre" and v: "v = FailureType_value ft"
    by blast
  have 1: "most_common_failure (failure_analysis
        (calculate_reliability_metrics signup_attempts failure_incidents))
        = Some (FailureType_value ft)"
    using mc v unfolding most_common_failure_eq ks_def fts_def by simp
  have 3: "ft \<notin> set pre" using fresh pre v by auto
  have 4: "\<forall>c\<in>set pre. count_list fts c < count_list fts ft"
  proof
    fix c assume "c \<in> set pre"
    then have "FailureType_value c \<in> set kpre" using pre by auto
    with before have "count_list ks (FailureType_value c) < count_list ks v" by blast
    then show "count_list fts c < count_list fts ft"
      unfolding v ks_def count_list_FailureType_value .
  qed
  have 5: "\<forall>c. count_list fts c \<le> count_list fts ft"
  proof
    fix c
    from all have "count_list ks (FailureType_value c) \<le> count_list ks v" by blast
    then show "count_list fts c \<le> count_list fts ft"
      unfolding v ks_def count_list_FailureType_value .
  qed
  from 1 2 3 4 5 show ?thesis unfolding fts_def by blast
qed

text \<open>The two tied incidents: the one met first wins.\<close>

theorem most_common_failure_is_first_encountered_maximum_witness:
  "tie_incidents \<noteq> []
   \<and> most_common_failure (failure_analysis (calculate_reliability_metrics [] tie_incidents))
       = Some ''network_timeout''"
proof -
  have ne: "tie_incidents \<noteq> []" by (simp add: tie_incidents_def)
  from most_common_failure_is_first_encountered_maximum [OF ne, of "[]"]
  obtain ft pre post where
    mc: "most_common_failure (failure_analysis (calculate_reliability_metrics [] tie_incidents))
        = Some (FailureType_value ft)"
    and sp: "[NETWORK_TIMEOUT, AUTHENTICATION_FAILED] = pre @ ft # post"
    and lt: "\<forall>c\<in>set pre. count_list [NETWORK_TIMEOUT, AUTHENTICATION_FAILED] c
                      < count_list [NETWORK_TIMEOUT, AUTHENTICATION_FAILED] ft"
    unfolding tie_incidents_types by blast
  have "ft = NETWORK_TIMEOUT"
  proof (cases pre)
    case Nil
    with sp show ?thesis by simp
  next
    case (Cons a pre')
    with sp have a: "a = NETWORK_TIMEOUT" and "[AUTHENTICATION_FAILED] = pre' @ ft # post"
      by simp_all
    then have "ft = AUTHENTICATION_FAILED" by (cases pre') simp_all
    with lt Cons a show ?thesis by simp
  qed
  with mc ne show ?thesis by simp
qed

end
